theory Spec2Isabelle
  imports Main
begin

section \<open>The iOS reminder hook (hooks/ios\_reminder\_hook.py)\<close>

text \<open>
  The hook reads one JSON document from standard input, looks at
  \<^verbatim>\<open>tool_input.file_path\<close> and at the proposed text, and prints one JSON object:
  always \<^verbatim>\<open>"decision": "approve"\<close>, with a \<^verbatim>\<open>message\<close> when one of four
  substring rules fires. The whole of \<^verbatim>\<open>main\<close> runs inside
  \<^verbatim>\<open>try: ... except Exception\<close>; the handler prints the bare approval to the
  error stream.

  Python strings are modelled as \<^typ>\<open>string\<close>, one \<^typ>\<open>char\<close> per code point, which
  covers the code points below 256. \<^verbatim>\<open>json.loads\<close> and \<^verbatim>\<open>sys.stdin.read\<close> belong to
  the standard library: the parser is a parameter \<open>loads\<close> of the model, which
  returns the parsed value or the exception it raised.
\<close>

subsection \<open>Python values and exceptions\<close>

text \<open>
  The exceptions that the modelled statements can raise. Each one is a subclass of
  \<^verbatim>\<open>Exception\<close>, so the handler of \<^verbatim>\<open>main\<close> catches every one of them.
\<close>

datatype py_error =
  JSONDecodeError | UnicodeDecodeError | RecursionError | AttributeError | TypeError

text \<open>
  A float as \<^verbatim>\<open>json.loads\<close> can return it (it accepts \<^verbatim>\<open>NaN\<close> and
  \<^verbatim>\<open>Infinity\<close>). \<open>Finite m e\<close> stands for \<open>m * 2 ^ e\<close>; the hook only ever asks
  whether a float is zero.
\<close>

datatype pyfloat = Finite int int | Infinite bool | NaN

text \<open>
  What \<^verbatim>\<open>json.loads\<close> returns: \<^verbatim>\<open>None\<close>, a bool, an int, a float, a str, a list
  or a dict with str keys. A dict is an association list in insertion order; lookup
  takes the first binding of a key.
\<close>

datatype json =
  JNull
| JBool bool
| JInt int
| JFloat pyfloat
| JStr string
| JList "json list"
| JDict "(string \<times> json) list"

text \<open>Sequencing of statements that may raise: the first exception ends the block.\<close>

definition and_then :: "py_error + 'a \<Rightarrow> ('a \<Rightarrow> py_error + 'b) \<Rightarrow> py_error + 'b" where
  "and_then m f = (case m of Inl e \<Rightarrow> Inl e | Inr v \<Rightarrow> f v)"

subsection \<open>String operations\<close>

text \<open>\<^verbatim>\<open>s.startswith(p)\<close> and \<^verbatim>\<open>s.endswith(suf)\<close> on two strings.\<close>

fun startswith :: "string \<Rightarrow> string \<Rightarrow> bool" where
  "startswith s [] = True"
| "startswith [] (p # ps) = False"
| "startswith (c # cs) (p # ps) = (c = p \<and> startswith cs ps)"

definition endswith :: "string \<Rightarrow> string \<Rightarrow> bool" where
  "endswith s suf = startswith (rev s) (rev suf)"

text \<open>\<^verbatim>\<open>sub in s\<close> on two strings: \<open>sub\<close> occurs in \<open>s\<close> at some position.\<close>

fun contains :: "string \<Rightarrow> string \<Rightarrow> bool" where
  "contains [] sub = (sub = [])"
| "contains (c # cs) sub = (startswith (c # cs) sub \<or> contains cs sub)"

text \<open>
  \<^verbatim>\<open>s.count("!")\<close>: the number of non-overlapping occurrences of a one-character
  string, that is, of the character.
\<close>

definition count_char :: "string \<Rightarrow> char \<Rightarrow> nat" where
  "count_char s c = length (filter (\<lambda>x. x = c) s)"

text \<open>
  \<^verbatim>\<open>s.lower()\<close> on the code points below 256: the letters A to Z, and the Latin-1
  capitals 0xC0 to 0xDE without the multiplication sign 0xD7, move up by 32; every
  other code point is its own lowercase.
\<close>

definition lower_char :: "char \<Rightarrow> char" where
  "lower_char c =
     (let n = (of_char c :: nat)
      in if (65 \<le> n \<and> n \<le> 90) \<or> (192 \<le> n \<and> n \<le> 222 \<and> n \<noteq> 215)
         then char_of (n + 32) else c)"

definition lower :: "string \<Rightarrow> string" where
  "lower s = map lower_char s"

text \<open>\<^verbatim>\<open>sep.join(xs)\<close>.\<close>

fun join :: "string \<Rightarrow> string list \<Rightarrow> string" where
  "join sep [] = []"
| "join sep [x] = x"
| "join sep (x # y # ys) = x @ sep @ join sep (y # ys)"

subsection \<open>The same operations on an arbitrary parsed value\<close>

text \<open>
  The fields of the input are whatever the JSON document holds, so each operation of
  \<^verbatim>\<open>main\<close> is applied to a \<^typ>\<open>json\<close> and raises what Python raises on the wrong
  type.
\<close>

text \<open>Truth value of an object, as \<^verbatim>\<open>or\<close> tests it.\<close>

fun truthy :: "json \<Rightarrow> bool" where
  "truthy JNull = False"
| "truthy (JBool b) = b"
| "truthy (JInt n) = (n \<noteq> 0)"
| "truthy (JFloat (Finite m e)) = (m \<noteq> 0)"
| "truthy (JFloat (Infinite sg)) = True"
| "truthy (JFloat NaN) = True"
| "truthy (JStr s) = (s \<noteq> [])"
| "truthy (JList xs) = (xs \<noteq> [])"
| "truthy (JDict kvs) = (kvs \<noteq> [])"

text \<open>\<^verbatim>\<open>x.get(key, default)\<close>: only a dict has the method.\<close>

fun py_get :: "json \<Rightarrow> string \<Rightarrow> json \<Rightarrow> py_error + json" where
  "py_get (JDict kvs) key dflt = Inr (case map_of kvs key of Some v \<Rightarrow> v | None \<Rightarrow> dflt)"
| "py_get x key dflt = Inl AttributeError"

text \<open>\<^verbatim>\<open>x.endswith(suf)\<close>: only a str has the method.\<close>

fun py_endswith :: "json \<Rightarrow> string \<Rightarrow> py_error + bool" where
  "py_endswith (JStr s) suf = Inr (endswith s suf)"
| "py_endswith x suf = Inl AttributeError"

text \<open>
  \<^verbatim>\<open>sub in x\<close> for a str \<open>sub\<close>: substring test on a str, membership in a list, key
  membership in a dict; the other types are not iterable.
\<close>

fun py_in :: "string \<Rightarrow> json \<Rightarrow> py_error + bool" where
  "py_in sub (JStr s) = Inr (contains s sub)"
| "py_in sub (JList xs) = Inr (List.member xs (JStr sub))"
| "py_in sub (JDict kvs) = Inr (List.member (map fst kvs) sub)"
| "py_in sub x = Inl TypeError"

text \<open>\<^verbatim>\<open>x.lower()\<close>: only a str has the method.\<close>

fun py_lower :: "json \<Rightarrow> py_error + string" where
  "py_lower (JStr s) = Inr (lower s)"
| "py_lower x = Inl AttributeError"

text \<open>\<^verbatim>\<open>x.count("!")\<close>: a str counts the character, a list counts equal elements.\<close>

fun py_count_bang :: "json \<Rightarrow> py_error + nat" where
  "py_count_bang (JStr s) = Inr (count_char s (CHR ''!''))"
| "py_count_bang (JList xs) = Inr (length (filter (\<lambda>x. x = JStr ''!'') xs))"
| "py_count_bang x = Inl AttributeError"

subsection \<open>Serialisation of the response\<close>

text \<open>
  \<^verbatim>\<open>json.dumps\<close> with its default settings, on a dict from str to str. A string is
  written between double quotes; the quote, the backslash and the control characters
  with a short escape get it, every other code point outside space to tilde is
  written as a \<^verbatim>\<open>u\<close> escape with four hexadecimal digits.
\<close>

definition hex_digit :: "nat \<Rightarrow> char" where
  "hex_digit n = ''0123456789abcdef'' ! (n mod 16)"

definition escape_char :: "char \<Rightarrow> string" where
  "escape_char c =
     (let n = (of_char c :: nat)
      in if c = CHR 0x22 then [CHR 0x5C, CHR 0x22]
         else if c = CHR 0x5C then [CHR 0x5C, CHR 0x5C]
         else if c = CHR 0x0A then [CHR 0x5C, CHR ''n'']
         else if c = CHR 0x0D then [CHR 0x5C, CHR ''r'']
         else if c = CHR 0x09 then [CHR 0x5C, CHR ''t'']
         else if c = CHR 0x08 then [CHR 0x5C, CHR ''b'']
         else if c = CHR 0x0C then [CHR 0x5C, CHR ''f'']
         else if 32 \<le> n \<and> n \<le> 126 then [c]
         else [CHR 0x5C, CHR ''u'', CHR ''0'', CHR ''0'', hex_digit (n div 16), hex_digit n])"

definition encode_basestring_ascii :: "string \<Rightarrow> string" where
  "encode_basestring_ascii s = [CHR 0x22] @ concat (map escape_char s) @ [CHR 0x22]"

definition member_text :: "string \<times> string \<Rightarrow> string" where
  "member_text kv = encode_basestring_ascii (fst kv) @ '': '' @ encode_basestring_ascii (snd kv)"

definition json_dumps :: "(string \<times> string) list \<Rightarrow> string" where
  "json_dumps obj = ''{'' @ join '', '' (map member_text obj) @ ''}''"

text \<open>\<^verbatim>\<open>print(s)\<close> writes the string and a newline.\<close>

definition py_print :: "string \<Rightarrow> string" where
  "py_print s = s @ [CHR 0x0A]"

subsection \<open>The hook\<close>

text \<open>The four advisory texts, in the order of their rules (lines 25, 28, 31, 34).\<close>

definition observable_advice :: string where
  "observable_advice = ''Consider using @Observable (iOS 17+) instead of ObservableObject''"

definition unwrap_advice :: string where
  "unwrap_advice = ''Avoid force unwrapping - use guard let or if let''"

definition mainactor_advice :: string where
  "mainactor_advice = ''Consider @MainActor instead of DispatchQueue.main in async contexts''"

definition lazystack_advice :: string where
  "lazystack_advice = ''Consider LazyVStack for better performance with ForEach''"

text \<open>
  Line 19: \<^verbatim>\<open>tool_input.get("content", "") or tool_input.get("new_string", "")\<close>.
  The right operand is evaluated only when the left one is falsy.
\<close>

definition get_content :: "json \<Rightarrow> py_error + json" where
  "get_content tool_input =
     and_then (py_get tool_input ''content'' (JStr [])) (\<lambda>c.
       if truthy c then Inr c else py_get tool_input ''new_string'' (JStr []))"

text \<open>
  The four conditions (lines 24, 27, 30 and 33). \<^verbatim>\<open>and\<close> and \<^verbatim>\<open>or\<close> evaluate
  their right operand only when the left one does not decide.
\<close>

definition observable_rule :: "json \<Rightarrow> py_error + bool" where
  "observable_rule content =
     and_then (py_in ''ObservableObject'' content) (\<lambda>a.
       if \<not> a then Inr False
       else and_then (py_in ''@Observable'' content) (\<lambda>b. Inr (\<not> b)))"

definition unwrap_rule :: "json \<Rightarrow> py_error + bool" where
  "unwrap_rule content =
     and_then (py_lower content) (\<lambda>l.
       if contains l ''force unwrap'' then Inr True
       else and_then (py_count_bang content) (\<lambda>n. Inr (n > 5)))"

definition mainactor_rule :: "json \<Rightarrow> py_error + bool" where
  "mainactor_rule content =
     and_then (py_in ''DispatchQueue.main'' content) (\<lambda>a.
       if \<not> a then Inr False else py_in ''async'' content)"

definition lazystack_rule :: "json \<Rightarrow> py_error + bool" where
  "lazystack_rule content =
     and_then (py_in ''VStack {'' content) (\<lambda>a.
       if \<not> a then Inr False
       else and_then (py_in ''ForEach'' content) (\<lambda>b.
         if \<not> b then Inr False
         else and_then (py_in ''LazyVStack'' content) (\<lambda>c. Inr (\<not> c))))"

text \<open>
  Lines 21 to 34: \<open>reminders\<close> starts empty and each rule that holds appends its
  text. \<open>check r advice k rs\<close> is one \<^verbatim>\<open>if\<close> statement followed by the rest \<open>k\<close> of
  the block.
\<close>

definition check ::
  "py_error + bool \<Rightarrow> string \<Rightarrow> (string list \<Rightarrow> py_error + 'a) \<Rightarrow> string list \<Rightarrow> py_error + 'a" where
  "check r advice k reminders =
     and_then r (\<lambda>b. k (if b then reminders @ [advice] else reminders))"

definition collect_reminders :: "json \<Rightarrow> py_error + string list" where
  "collect_reminders content =
     check (observable_rule content) observable_advice
       (check (unwrap_rule content) unwrap_advice
         (check (mainactor_rule content) mainactor_advice
           (check (lazystack_rule content) lazystack_advice Inr))) []"

text \<open>Lines 36 to 43: the dict that is serialised and printed.\<close>

definition bullet :: "string \<Rightarrow> string" where
  "bullet r = ''- '' @ r"

definition approve :: "(string \<times> string) list" where
  "approve = [(''decision'', ''approve'')]"

definition response :: "string list \<Rightarrow> (string \<times> string) list" where
  "response reminders =
     (if reminders \<noteq> []
      then [(''decision'', ''approve''),
            (''message'',
             ''iOS Best Practices:'' @ [CHR 0x0A] @ join [CHR 0x0A] (map bullet reminders))]
      else approve)"

text \<open>
  The body of the \<^verbatim>\<open>try\<close> block (lines 10 to 43). Its value is the text written
  to standard output, or the exception that left the block; every \<^verbatim>\<open>print\<close> of the
  block is its last statement, so an exception means nothing was printed.
\<close>

definition main_body :: "(string \<Rightarrow> py_error + json) \<Rightarrow> string \<Rightarrow> py_error + string" where
  "main_body loads stdin_text =
     and_then (loads stdin_text) (\<lambda>input_data.
     and_then (py_get input_data ''tool_input'' (JDict [])) (\<lambda>tool_input.
     and_then (py_get tool_input ''file_path'' (JStr [])) (\<lambda>file_path.
     and_then (py_endswith file_path ''.swift'') (\<lambda>swift.
       if \<not> swift then Inr (py_print (json_dumps approve))
       else
         and_then (get_content tool_input) (\<lambda>content.
         and_then (collect_reminders content) (\<lambda>reminders.
           Inr (py_print (json_dumps (response reminders)))))))))"

text \<open>
  One run of the program: what it wrote to each stream and its exit status. The handler
  (lines 45 and 46) prints the bare approval to the error stream; in both cases
  \<^verbatim>\<open>main\<close> returns and the interpreter exits with status 0.
\<close>

record process =
  stdout :: string
  stderr :: string
  exit_status :: nat

definition main :: "(string \<Rightarrow> py_error + json) \<Rightarrow> string \<Rightarrow> process" where
  "main loads stdin_text =
     (case main_body loads stdin_text of
        Inr out \<Rightarrow> \<lparr>stdout = out, stderr = [], exit_status = 0\<rparr>
      | Inl e \<Rightarrow> \<lparr>stdout = [], stderr = py_print (json_dumps approve), exit_status = 0\<rparr>)"

subsection \<open>Reading the output\<close>

text \<open>
  The line \<^verbatim>\<open>{"decision": "approve"}\<close> with its newline, character by
  character (0x22 is the double quote).
\<close>

definition approve_line :: string where
  "approve_line =
     ''{'' @ [CHR 0x22] @ ''decision'' @ [CHR 0x22] @ '': '' @ [CHR 0x22] @ ''approve'' @ [CHR 0x22]
     @ ''}'' @ [CHR 0x0A]"

text \<open>
  The lines of a text, as \<^verbatim>\<open>text.split("\n")\<close> gives them; used to state what the
  message looks like.
\<close>

fun split_lines :: "string \<Rightarrow> string list" where
  "split_lines [] = [[]]"
| "split_lines (c # cs) =
     (if c = CHR 0x0A then [] # split_lines cs
      else (case split_lines cs of l # ls \<Rightarrow> (c # l) # ls | [] \<Rightarrow> [[c]]))"

text \<open>
  The lines of the \<^verbatim>\<open>message\<close> field of a response, none when the key is absent.
\<close>

definition message_lines :: "(string \<times> string) list \<Rightarrow> string list" where
  "message_lines obj = (case map_of obj ''message'' of None \<Rightarrow> [] | Some m \<Rightarrow> split_lines m)"

text \<open>
  Reading one character of an encoded string back: the inverse of \<open>escape_char\<close>,
  used to show that the serialisation determines the object. \<open>hex_value\<close> is the
  value of a hexadecimal digit.
\<close>

definition hex_value :: "char \<Rightarrow> nat" where
  "hex_value c = length (takeWhile (\<lambda>d. d \<noteq> c) ''0123456789abcdef'')"

definition unescape_char :: "string \<Rightarrow> (char \<times> string) option" where
  "unescape_char t =
     (case t of
        [] \<Rightarrow> None
      | x # xs \<Rightarrow>
          if x = CHR 0x22 then None
          else if x \<noteq> CHR 0x5C then Some (x, xs)
          else (case xs of
                  [] \<Rightarrow> None
                | y # ys \<Rightarrow>
                    if y = CHR ''n'' then Some (CHR 0x0A, ys)
                    else if y = CHR ''r'' then Some (CHR 0x0D, ys)
                    else if y = CHR ''t'' then Some (CHR 0x09, ys)
                    else if y = CHR ''b'' then Some (CHR 0x08, ys)
                    else if y = CHR ''f'' then Some (CHR 0x0C, ys)
                    else if y = CHR ''u'' then
                      (case ys of
                         a # b # h1 # h2 # zs \<Rightarrow>
                           Some (char_of (16 * hex_value h1 + hex_value h2), zs)
                       | _ \<Rightarrow> None)
                    else Some (y, ys)))"

text \<open>
  \<open>emits p obj\<close>: the run \<open>p\<close> wrote the serialisation of \<open>obj\<close>, and nothing
  else, to one of its two streams.
\<close>

definition emits :: "process \<Rightarrow> (string \<times> string) list \<Rightarrow> bool" where
  "emits p obj =
     ((stdout p = py_print (json_dumps obj) \<and> stderr p = []) \<or>
      (stdout p = [] \<and> stderr p = py_print (json_dumps obj)))"

subsection \<open>Shapes of the input\<close>

text \<open>
  \<open>edit_input input_data tool_input file_path\<close>: the parsed document is an object,
  its \<^verbatim>\<open>tool_input\<close> (the empty object when absent) is the object \<open>tool_input\<close>, and
  the \<^verbatim>\<open>file_path\<close> of that (the empty string when absent) is the string
  \<open>file_path\<close>. Nothing is asked of the other fields.
\<close>

definition edit_input :: "json \<Rightarrow> (string \<times> json) list \<Rightarrow> string \<Rightarrow> bool" where
  "edit_input input_data tool_input file_path =
     (case input_data of
        JDict doc \<Rightarrow>
          (case map_of doc ''tool_input'' of None \<Rightarrow> JDict [] | Some v \<Rightarrow> v) = JDict tool_input \<and>
          (case map_of tool_input ''file_path'' of None \<Rightarrow> JStr [] | Some v \<Rightarrow> v) = JStr file_path
      | _ \<Rightarrow> False)"

text \<open>
  The request of the scenarios of the specification: a document with a
  \<^verbatim>\<open>file_path\<close> and a \<^verbatim>\<open>content\<close>, and the \<^verbatim>\<open>tool_input\<close> inside it.
\<close>

definition scenario_tool_input :: "string \<Rightarrow> string \<Rightarrow> (string \<times> json) list" where
  "scenario_tool_input path text = [(''file_path'', JStr path), (''content'', JStr text)]"

definition scenario :: "string \<Rightarrow> string \<Rightarrow> json" where
  "scenario path text = JDict [(''tool_input'', JDict (scenario_tool_input path text))]"

text \<open>
  A content on which exactly the chosen rules hold: one fragment per rule, none of
  which sets off or suppresses another rule.
\<close>

definition content_for :: "bool \<Rightarrow> bool \<Rightarrow> bool \<Rightarrow> bool \<Rightarrow> string" where
  "content_for b1 b2 b3 b4 =
     (if b1 then ''ObservableObject '' else []) @ (if b2 then ''!!!!!! '' else []) @
     (if b3 then ''DispatchQueue.main async '' else []) @
     (if b4 then ''VStack { ForEach'' else [])"

section \<open>Properties\<close>

subsection \<open>Strings and lines\<close>

lemma and_then_Inr [simp]: "and_then (Inr v) f = f v"
  by (simp add: and_then_def)

lemma and_then_Inl [simp]: "and_then (Inl e) f = Inl e"
  by (simp add: and_then_def)

lemma startswith_iff: "startswith s p \<longleftrightarrow> (\<exists>t. s = p @ t)"
  by (induction s p rule: startswith.induct) auto

lemma contains_iff: "contains s sub \<longleftrightarrow> (\<exists>pre post. s = pre @ sub @ post)"
proof (induction s)
  case Nil
  then show ?case by auto
next
  case (Cons c cs)
  show ?case
  proof
    assume "contains (c # cs) sub"
    then consider "startswith (c # cs) sub" | "contains cs sub" by auto
    then show "\<exists>pre post. c # cs = pre @ sub @ post"
    proof cases
      case 1
      then obtain t where "c # cs = sub @ t" by (auto simp: startswith_iff)
      then have "c # cs = [] @ sub @ t" by simp
      then show ?thesis by blast
    next
      case 2
      then obtain pre post where "cs = pre @ sub @ post" using Cons.IH by auto
      then have "c # cs = (c # pre) @ sub @ post" by simp
      then show ?thesis by blast
    qed
  next
    assume "\<exists>pre post. c # cs = pre @ sub @ post"
    then obtain pre post where eq: "c # cs = pre @ sub @ post" by auto
    show "contains (c # cs) sub"
    proof (cases pre)
      case Nil
      with eq have "startswith (c # cs) sub" by (auto simp: startswith_iff)
      then show ?thesis by simp
    next
      case (Cons x pre')
      with eq have "cs = pre' @ sub @ post" by simp
      then have "contains cs sub" using Cons.IH by auto
      then show ?thesis by simp
    qed
  qed
qed

lemma contains_trans:
  assumes "contains s b" and "contains b a"
  shows "contains s a"
proof -
  obtain p1 q1 where "s = p1 @ b @ q1" using assms(1) by (auto simp: contains_iff)
  moreover obtain p2 q2 where "b = p2 @ a @ q2" using assms(2) by (auto simp: contains_iff)
  ultimately have "s = (p1 @ p2) @ a @ (q2 @ q1)" by simp
  then show ?thesis unfolding contains_iff by blast
qed

lemma endswith_iff: "endswith s suf \<longleftrightarrow> (\<exists>pre. s = pre @ suf)"
proof -
  have "endswith s suf \<longleftrightarrow> (\<exists>t. rev s = rev suf @ t)"
    by (simp add: endswith_def startswith_iff)
  also have "\<dots> \<longleftrightarrow> (\<exists>pre. s = pre @ suf)"
  proof
    assume "\<exists>t. rev s = rev suf @ t"
    then obtain t where "rev s = rev suf @ t" by auto
    then have "rev (rev s) = rev (rev suf @ t)" by simp
    then have "s = rev t @ suf" by simp
    then show "\<exists>pre. s = pre @ suf" by blast
  next
    assume "\<exists>pre. s = pre @ suf"
    then obtain pre where "s = pre @ suf" by auto
    then have "rev s = rev suf @ rev pre" by simp
    then show "\<exists>t. rev s = rev suf @ t" by blast
  qed
  finally show ?thesis .
qed

lemma approve_text: "py_print (json_dumps approve) = approve_line"
  by code_simp

lemma split_lines_nonempty: "split_lines s \<noteq> []"
  by (induction s) (auto split: list.splits)

lemma split_lines_no_newline: "CHR 0x0A \<notin> set s \<Longrightarrow> split_lines s = [s]"
  by (induction s) auto

lemma split_lines_append:
  "CHR 0x0A \<notin> set a \<Longrightarrow> split_lines (a @ CHR 0x0A # b) = a # split_lines b"
  by (induction a) auto

lemma split_lines_join:
  "xs \<noteq> [] \<Longrightarrow> \<forall>x\<in>set xs. CHR 0x0A \<notin> set x \<Longrightarrow> split_lines (join [CHR 0x0A] xs) = xs"
proof (induction "[CHR 0x0A]" xs rule: join.induct)
  case 1
  then show ?case by simp
next
  case (2 x)
  then show ?case by (simp add: split_lines_no_newline)
next
  case (3 x y ys)
  then show ?case by (simp add: split_lines_append)
qed

subsection \<open>The serialisation determines the object\<close>

lemma hex_value_digit: "hex_value (hex_digit k) = k mod 16"
proof -
  have "\<forall>j\<in>set [0..<16]. hex_value (hex_digit j) = j"
    by code_simp
  moreover have "k mod 16 \<in> set [0..<16]"
    by simp
  ultimately have "hex_value (hex_digit (k mod 16)) = k mod 16"
    by blast
  then show ?thesis
    by (simp add: hex_digit_def)
qed

lemma char_of_hex: "char_of (16 * ((of_char c :: nat) div 16 mod 16) + of_char c mod 16) = c"
proof -
  have "(of_char c :: nat) < 256" by simp
  then have "(of_char c :: nat) div 16 mod 16 = of_char c div 16"
    by (simp add: less_mult_imp_div_less)
  then show ?thesis by simp
qed

lemma unescape_escape: "unescape_char (escape_char c @ t) = Some (c, t)"
  by (simp add: unescape_char_def escape_char_def Let_def hex_value_digit char_of_hex)


lemma unescape_quote: "unescape_char (CHR 0x22 # t) = None"
  by (simp add: unescape_char_def)

lemma escaped_inj:
  "concat (map escape_char a) @ CHR 0x22 # t = concat (map escape_char b) @ CHR 0x22 # u
   \<Longrightarrow> a = b \<and> t = u"
proof (induction a arbitrary: b)
  case Nil
  show ?case
  proof (cases b)
    case Nil
    with Nil.prems show ?thesis by simp
  next
    case (Cons y ys)
    have "unescape_char (CHR 0x22 # t) =
        unescape_char (escape_char y @ concat (map escape_char ys) @ CHR 0x22 # u)"
      using Nil.prems Cons by simp
    then have False
      by (simp only: unescape_escape unescape_quote option.distinct)
    then show ?thesis ..
  qed
next
  case (Cons x xs)
  show ?case
  proof (cases b)
    case Nil
    have "unescape_char (escape_char x @ concat (map escape_char xs) @ CHR 0x22 # t) =
        unescape_char (CHR 0x22 # u)"
      using Cons.prems Nil by simp
    then have False
      by (simp only: unescape_escape unescape_quote option.distinct)
    then show ?thesis ..
  next
    case c: (Cons y ys)
    have "unescape_char (escape_char x @ concat (map escape_char xs) @ CHR 0x22 # t) =
        unescape_char (escape_char y @ concat (map escape_char ys) @ CHR 0x22 # u)"
      using Cons.prems c by simp
    then have "x = y" and "concat (map escape_char xs) @ CHR 0x22 # t =
        concat (map escape_char ys) @ CHR 0x22 # u"
      by (simp_all only: unescape_escape option.inject prod.inject)
    with Cons.IH [of ys] c show ?thesis by simp
  qed
qed

lemma encode_inj:
  assumes "encode_basestring_ascii a @ t = encode_basestring_ascii b @ u"
  shows "a = b \<and> t = u"
  using assms escaped_inj [of a t b u] by (simp add: encode_basestring_ascii_def)

lemma member_inj:
  assumes "member_text p @ t = member_text q @ u"
  shows "p = q \<and> t = u"
proof -
  obtain k v k' v' where p: "p = (k, v)" and q: "q = (k', v')"
    by (cases p, cases q) auto
  from assms have "encode_basestring_ascii k @ ('': '' @ encode_basestring_ascii v @ t) =
      encode_basestring_ascii k' @ ('': '' @ encode_basestring_ascii v' @ u)"
    by (simp add: member_text_def p q)
  then have "k = k'" and "'': '' @ encode_basestring_ascii v @ t = '': '' @ encode_basestring_ascii v' @ u"
    using encode_inj by blast+
  then have "k = k'" and "encode_basestring_ascii v @ t = encode_basestring_ascii v' @ u"
    by simp_all
  with encode_inj [of v t v' u] p q show ?thesis by simp
qed

lemma member_text_quote: "\<exists>r. member_text p = CHR 0x22 # r"
  by (cases p) (simp add: member_text_def encode_basestring_ascii_def)

lemma members_inj:
  "join '', '' (map member_text a) @ ''}'' = join '', '' (map member_text b) @ ''}'' \<Longrightarrow> a = b"
proof (induction a arbitrary: b)
  case Nil
  show ?case
  proof (cases b)
    case (Cons q qs)
    obtain r where "member_text q = CHR 0x22 # r" using member_text_quote by blast
    with Nil Cons show ?thesis by (cases qs) simp_all
  qed simp
next
  case (Cons p ps)
  show ?case
  proof (cases b)
    case Nil
    obtain r where "member_text p = CHR 0x22 # r" using member_text_quote by blast
    with Cons.prems Nil show ?thesis by (cases ps) simp_all
  next
    case c: (Cons q qs)
    have j: "join '', '' (map member_text (x # xs)) @ ''}'' =
        member_text x @ (if xs = [] then ''}'' else '', '' @ join '', '' (map member_text xs) @ ''}'')"
      for x xs by (cases xs) simp_all
    from Cons.prems c have "member_text p @
         (if ps = [] then ''}'' else '', '' @ join '', '' (map member_text ps) @ ''}'') =
        member_text q @
         (if qs = [] then ''}'' else '', '' @ join '', '' (map member_text qs) @ ''}'')"
      by (simp only: j)
    from member_inj [OF this] have pq: "p = q"
      and rest: "(if ps = [] then ''}'' else '', '' @ join '', '' (map member_text ps) @ ''}'') =
         (if qs = [] then ''}'' else '', '' @ join '', '' (map member_text qs) @ ''}'')"
      by simp_all
    have "ps = qs"
    proof (cases "ps = []"; cases "qs = []")
      assume "ps \<noteq> []" "qs \<noteq> []"
      with rest have "join '', '' (map member_text ps) @ ''}'' = join '', '' (map member_text qs) @ ''}''"
        by simp
      then show ?thesis by (rule Cons.IH)
    qed (use rest in simp_all)
    with pq c show ?thesis by simp
  qed
qed

lemma json_dumps_inj: "json_dumps a = json_dumps b \<Longrightarrow> a = b"
proof -
  assume "json_dumps a = json_dumps b"
  then have "join '', '' (map member_text a) @ ''}'' = join '', '' (map member_text b) @ ''}''"
    by (simp add: json_dumps_def)
  then show ?thesis by (rule members_inj)
qed

lemma emits_unique:
  assumes "emits p a" and "emits p b"
  shows "a = b"
proof -
  have "json_dumps a = json_dumps b"
    using assms by (auto simp: emits_def py_print_def)
  then show ?thesis by (rule json_dumps_inj)
qed

subsection \<open>The body of main\<close>

lemma main_Inr: "main_body loads s = Inr out \<Longrightarrow> main loads s = \<lparr>stdout = out, stderr = [], exit_status = 0\<rparr>"
  by (simp add: main_def)

lemma main_Inl: "main_body loads s = Inl e \<Longrightarrow>
   main loads s = \<lparr>stdout = [], stderr = py_print (json_dumps approve), exit_status = 0\<rparr>"
  by (simp add: main_def)

lemma edit_inputD:
  assumes "edit_input j ti p"
  shows "py_get j ''tool_input'' (JDict []) = Inr (JDict ti)"
    and "py_get (JDict ti) ''file_path'' (JStr []) = Inr (JStr p)"
  using assms by (auto simp: edit_input_def split: json.splits)

lemma main_body_gate:
  assumes "loads s = Inr j" and "edit_input j ti p"
  shows "main_body loads s =
     (if \<not> endswith p ''.swift'' then Inr (py_print (json_dumps approve))
      else and_then (get_content (JDict ti)) (\<lambda>content.
           and_then (collect_reminders content) (\<lambda>reminders.
             Inr (py_print (json_dumps (response reminders))))))"
  unfolding main_body_def using assms(1) edit_inputD[OF assms(2)] by simp

lemma observable_rule_str:
  "observable_rule (JStr c) = Inr (contains c ''ObservableObject'' \<and> \<not> contains c ''@Observable'')"
  by (simp add: observable_rule_def)

lemma unwrap_rule_str:
  "unwrap_rule (JStr c) = Inr (contains (lower c) ''force unwrap'' \<or> 5 < count_char c (CHR ''!''))"
  by (simp add: unwrap_rule_def)

lemma mainactor_rule_str:
  "mainactor_rule (JStr c) = Inr (contains c ''DispatchQueue.main'' \<and> contains c ''async'')"
  by (simp add: mainactor_rule_def)

lemma lazystack_rule_str:
  "lazystack_rule (JStr c) =
     Inr (contains c ''VStack {'' \<and> contains c ''ForEach'' \<and> \<not> contains c ''LazyVStack'')"
  by (simp add: lazystack_rule_def)

lemma check_Inr: "check (Inr b) advice k rs = k (if b then rs @ [advice] else rs)"
  by (simp add: check_def)

lemma collect_reminders_rules:
  assumes "observable_rule v = Inr b1" and "unwrap_rule v = Inr b2"
    and "mainactor_rule v = Inr b3" and "lazystack_rule v = Inr b4"
  shows "collect_reminders v =
     Inr ((if b1 then [observable_advice] else []) @ (if b2 then [unwrap_advice] else []) @
          (if b3 then [mainactor_advice] else []) @ (if b4 then [lazystack_advice] else []))"
  unfolding collect_reminders_def using assms by (simp add: check_Inr)

lemma collect_reminders_str:
  "collect_reminders (JStr c) =
     Inr ((if contains c ''ObservableObject'' \<and> \<not> contains c ''@Observable''
           then [observable_advice] else []) @
          (if contains (lower c) ''force unwrap'' \<or> 5 < count_char c (CHR ''!'')
           then [unwrap_advice] else []) @
          (if contains c ''DispatchQueue.main'' \<and> contains c ''async''
           then [mainactor_advice] else []) @
          (if contains c ''VStack {'' \<and> contains c ''ForEach'' \<and> \<not> contains c ''LazyVStack''
           then [lazystack_advice] else []))"
  by (rule collect_reminders_rules
      [OF observable_rule_str unwrap_rule_str mainactor_rule_str lazystack_rule_str])

lemma collect_reminders_not_str:
  assumes "\<And>c. v \<noteq> JStr c"
  shows "\<exists>e. collect_reminders v = Inl e"
proof (cases v)
  case (JStr c) with assms show ?thesis by blast
next
  case (JList xs)
  then show ?thesis
    by (simp add: collect_reminders_def check_def observable_rule_def unwrap_rule_def and_then_def)
next
  case (JDict kvs)
  then show ?thesis
    by (simp add: collect_reminders_def check_def observable_rule_def unwrap_rule_def and_then_def)
qed (simp_all add: collect_reminders_def check_def observable_rule_def)

lemma advice_no_newline:
  "CHR 0x0A \<notin> set observable_advice" "CHR 0x0A \<notin> set unwrap_advice"
  "CHR 0x0A \<notin> set mainactor_advice" "CHR 0x0A \<notin> set lazystack_advice"
  by (simp_all add: observable_advice_def unwrap_advice_def mainactor_advice_def lazystack_advice_def)

lemma advice_distinct:
  "distinct [observable_advice, unwrap_advice, mainactor_advice, lazystack_advice]"
  by (simp add: observable_advice_def unwrap_advice_def mainactor_advice_def lazystack_advice_def)

lemma message_lines_response:
  assumes "\<forall>r\<in>set rs. CHR 0x0A \<notin> set r"
  shows "message_lines (response rs) =
     (if rs = [] then [] else ''iOS Best Practices:'' # map bullet rs)"
proof (cases "rs = []")
  case True
  then show ?thesis by (simp add: message_lines_def response_def approve_def)
next
  case False
  define ls where "ls = map bullet rs"
  have "ls \<noteq> []" and "\<forall>l\<in>set ls. CHR 0x0A \<notin> set l"
    using False assms by (auto simp: ls_def bullet_def)
  then have a: "split_lines (join [CHR 0x0A] ls) = ls"
    by (rule split_lines_join)
  have b: "CHR 0x0A \<notin> set ''iOS Best Practices:''"
    by simp
  have "split_lines (''iOS Best Practices:'' @ CHR 0x0A # join [CHR 0x0A] ls)
      = ''iOS Best Practices:'' # split_lines (join [CHR 0x0A] ls)"
    by (rule split_lines_append [OF b])
  then have "split_lines (''iOS Best Practices:'' @ CHR 0x0A # join [CHR 0x0A] ls)
      = ''iOS Best Practices:'' # ls"
    unfolding a .
  with False show ?thesis
    by (simp add: message_lines_def response_def ls_def)
qed

subsection \<open>Requests for a Swift file\<close>

lemma main_swift:
  assumes "loads s = Inr input_data"
    and "edit_input input_data tool_input file_path"
    and "endswith file_path ''.swift''"
    and "get_content (JDict tool_input) = Inr (JStr content)"
    and "collect_reminders (JStr content) = Inr reminders"
  shows "main loads s =
     \<lparr>stdout = py_print (json_dumps (response reminders)), stderr = [], exit_status = 0\<rparr>"
proof -
  have "main_body loads s = Inr (py_print (json_dumps (response reminders)))"
    using main_body_gate [of loads s, OF assms(1,2)] assms(3,4,5) by simp
  then show ?thesis by (rule main_Inr)
qed

lemma count_list_bullet: "count_list (map bullet rs) (bullet a) = count_list rs a"
  by (induction rs) (simp_all add: bullet_def)

lemma count_message_lines:
  assumes "\<forall>r\<in>set rs. CHR 0x0A \<notin> set r"
  shows "count_list (message_lines (response rs)) (bullet a) = count_list rs a"
proof -
  have "''iOS Best Practices:'' \<noteq> bullet a"
    by (simp add: bullet_def)
  then show ?thesis
    by (simp add: message_lines_response [OF assms] count_list_bullet)
qed

lemma reminders_no_newline:
  assumes "collect_reminders (JStr c) = Inr rs"
  shows "\<forall>r\<in>set rs. CHR 0x0A \<notin> set r"
  using assms advice_no_newline unfolding collect_reminders_str by (auto split: if_splits)

lemma reminders_length:
  assumes "collect_reminders (JStr c) = Inr rs"
  shows "length rs \<le> 4"
  using assms unfolding collect_reminders_str by (auto split: if_splits)

lemma main_body_shape:
  assumes "main_body loads s = Inr out"
  shows "out = py_print (json_dumps approve) \<or>
     (\<exists>c rs. collect_reminders (JStr c) = Inr rs \<and> out = py_print (json_dumps (response rs)))"
proof -
  have "out = py_print (json_dumps approve) \<or>
     (\<exists>v rs. collect_reminders v = Inr rs \<and> out = py_print (json_dumps (response rs)))"
    using assms by (auto simp: main_body_def and_then_def split: sum.splits if_splits)
  moreover have "\<exists>c. v = JStr c" if "collect_reminders v = Inr rs" for v rs
    using that collect_reminders_not_str [of v] by (cases v) auto
  ultimately show ?thesis by blast
qed

lemma join_Cons: "xs \<noteq> [] \<Longrightarrow> join sep (x # xs) = x @ sep @ join sep xs"
  by (cases xs) simp_all

lemma bullet_lines: "map bullet rs = map (\<lambda>r. ''- '' @ r) rs"
  by (simp add: bullet_def)

lemma response_message:
  assumes "rs \<noteq> []"
  shows "response rs =
     [(''decision'', ''approve''),
      (''message'', join [CHR 0x0A] (''iOS Best Practices:'' # map (\<lambda>r. ''- '' @ r) rs))]"
proof -
  have "map bullet rs \<noteq> []" using assms by simp
  then have j: "join [CHR 0x0A] (''iOS Best Practices:'' # map bullet rs) =
      ''iOS Best Practices:'' @ [CHR 0x0A] @ join [CHR 0x0A] (map bullet rs)"
    by (rule join_Cons)
  have "response rs =
     [(''decision'', ''approve''),
      (''message'', join [CHR 0x0A] (''iOS Best Practices:'' # map bullet rs))]"
    unfolding j using assms by (simp add: response_def)
  then show ?thesis
    unfolding bullet_lines .
qed

lemma content_for_rules:
  "observable_rule (JStr (content_for b1 b2 b3 b4)) = Inr b1 \<and>
   unwrap_rule (JStr (content_for b1 b2 b3 b4)) = Inr b2 \<and>
   mainactor_rule (JStr (content_for b1 b2 b3 b4)) = Inr b3 \<and>
   lazystack_rule (JStr (content_for b1 b2 b3 b4)) = Inr b4"
  by (induct b1; induct b2; induct b3; induct b4; code_simp)

lemma every_subset_fires:
  "\<exists>c. observable_rule (JStr c) = Inr b1 \<and> unwrap_rule (JStr c) = Inr b2 \<and>
       mainactor_rule (JStr c) = Inr b3 \<and> lazystack_rule (JStr c) = Inr b4"
  using content_for_rules [of b1 b2 b3 b4] by blast

lemma scenario_edit_input: "edit_input (scenario p c) (scenario_tool_input p c) p"
  by (simp add: edit_input_def scenario_def scenario_tool_input_def)

lemma scenario_get_content:
  "c \<noteq> [] \<Longrightarrow> get_content (JDict (scenario_tool_input p c)) = Inr (JStr c)"
  by (simp add: get_content_def scenario_tool_input_def)

subsection \<open>The properties of the specification\<close>

text \<open>
  C1. Whatever standard input holds, the run ends with exit status 0. When the parser
  raises, the body of the \<^verbatim>\<open>try\<close> block raises the same exception, and whenever
  the body raises, for whatever reason, the handler writes the bare approval line to
  the error stream.
\<close>
theorem main_never_crashes:
  "exit_status (main loads s) = 0 \<and>
   (loads s = Inl e \<longrightarrow> main_body loads s = Inl e) \<and>
   (main_body loads s = Inl e \<longrightarrow> stderr (main loads s) = approve_line)"
  by (auto simp: main_def main_body_def approve_text split: sum.splits)

theorem main_never_crashes_witness:
  "exit_status (main (\<lambda>s. Inl JSONDecodeError) ''{not json'') = 0 \<and>
   stderr (main (\<lambda>s. Inl JSONDecodeError) ''{not json'') = approve_line"
  using main_never_crashes [of "\<lambda>s. Inl JSONDecodeError" "''{not json''" JSONDecodeError]
  by simp

text \<open>
  C2. When the \<^verbatim>\<open>file_path\<close> of the request does not end in \<^verbatim>\<open>.swift\<close>, standard
  output is exactly the bare approval line, whatever else \<^verbatim>\<open>tool_input\<close> holds
  (a content of the wrong type included): the rules play no part.
\<close>
theorem other_files_approved:
  assumes "loads s = Inr input_data"
    and "edit_input input_data tool_input file_path"
    and "\<not> endswith file_path ''.swift''"
  shows "main loads s = \<lparr>stdout = approve_line, stderr = [], exit_status = 0\<rparr>"
proof -
  have "main_body loads s = Inr approve_line"
    using main_body_gate [of loads s, OF assms(1,2)] assms(3) by (simp add: approve_text)
  then show ?thesis by (rule main_Inr)
qed

theorem other_files_approved_witness:
  "main (\<lambda>s. Inr (JDict [(''tool_input'',
      JDict [(''file_path'', JStr ''Model.py''), (''content'', JInt 7)])])) []
     = \<lparr>stdout = approve_line, stderr = [], exit_status = 0\<rparr>"
proof -
  let ?ti = "[(''file_path'', JStr ''Model.py''), (''content'', JInt 7)]"
  let ?j = "JDict [(''tool_input'', JDict ?ti)]"
  have a: "edit_input ?j ?ti ''Model.py''"
    by (simp add: edit_input_def)
  have b: "\<not> endswith ''Model.py'' ''.swift''"
    by (simp add: endswith_def)
  show ?thesis
    by (rule other_files_approved [of "\<lambda>s. Inr ?j" "[]", OF refl a b])
qed

text \<open>
  C3. For a request for a \<^verbatim>\<open>.swift\<close> file whose content is a string, the rules
  return a list of reminders and standard output is the response built from it. The
  force-unwrap advice occurs in that list once when the lowercased content contains
  \<^verbatim>\<open>force unwrap\<close> or the content has more than five exclamation marks, and
  not at all otherwise; the same count holds for its line among the lines of the
  message.
\<close>

theorem unwrap_advice_iff:
  assumes "loads s = Inr input_data"
    and "edit_input input_data tool_input file_path"
    and "endswith file_path ''.swift''"
    and "get_content (JDict tool_input) = Inr (JStr content)"
  shows "\<exists>reminders.
     collect_reminders (JStr content) = Inr reminders \<and>
     main loads s =
       \<lparr>stdout = py_print (json_dumps (response reminders)), stderr = [], exit_status = 0\<rparr> \<and>
     count_list reminders unwrap_advice =
       (if contains (lower content) ''force unwrap'' \<or> 5 < count_char content (CHR ''!'')
        then 1 else 0) \<and>
     count_list (message_lines (response reminders)) (bullet unwrap_advice) =
       (if contains (lower content) ''force unwrap'' \<or> 5 < count_char content (CHR ''!'')
        then 1 else 0)"
proof -
  obtain reminders where rs: "collect_reminders (JStr content) = Inr reminders"
    by (simp add: collect_reminders_str)
  have n: "count_list reminders unwrap_advice =
       (if contains (lower content) ''force unwrap'' \<or> 5 < count_char content (CHR ''!'')
        then 1 else 0)"
    using rs advice_distinct unfolding collect_reminders_str by auto
  have "count_list (message_lines (response reminders)) (bullet unwrap_advice) =
      count_list reminders unwrap_advice"
    by (rule count_message_lines [OF reminders_no_newline [OF rs]])
  with n rs main_swift [of loads s, OF assms rs] show ?thesis
    by (intro exI [of _ reminders]) simp
qed

theorem unwrap_advice_iff_witness:
  "\<exists>reminders.
     collect_reminders (JStr ''a!b!c!d!e!f!'') = Inr reminders \<and>
     main (\<lambda>s. Inr (scenario ''View.swift'' ''a!b!c!d!e!f!'')) [] =
       \<lparr>stdout = py_print (json_dumps (response reminders)), stderr = [], exit_status = 0\<rparr> \<and>
     count_list reminders unwrap_advice = 1 \<and>
     count_list (message_lines (response reminders)) (bullet unwrap_advice) = 1"
proof -
  have sw: "endswith ''View.swift'' ''.swift''"
    by (simp add: endswith_def)
  have c: "get_content (JDict (scenario_tool_input ''View.swift'' ''a!b!c!d!e!f!'')) = Inr (JStr ''a!b!c!d!e!f!'')"
    by (simp add: scenario_get_content)
  have six: "5 < count_char ''a!b!c!d!e!f!'' (CHR ''!'')"
    by (simp add: count_char_def)
  show ?thesis
    using unwrap_advice_iff
      [of "\<lambda>s. Inr (scenario ''View.swift'' ''a!b!c!d!e!f!'')" "[]", OF refl scenario_edit_input sw c]
      six
    by simp
qed

text \<open>
  C4. For a request for a \<^verbatim>\<open>.swift\<close> file whose content contains
  \<^verbatim>\<open>ObservableObject\<close> and does not contain \<^verbatim>\<open>@Observable\<close>, the migration
  advice is the first reminder, and its line comes right after the header of the
  message.
\<close>

theorem observable_advice_first:
  assumes "loads s = Inr input_data"
    and "edit_input input_data tool_input file_path"
    and "endswith file_path ''.swift''"
    and "get_content (JDict tool_input) = Inr (JStr content)"
    and "contains content ''ObservableObject''"
    and "\<not> contains content ''@Observable''"
  shows "\<exists>others.
     collect_reminders (JStr content) = Inr (observable_advice # others) \<and>
     main loads s =
       \<lparr>stdout = py_print (json_dumps (response (observable_advice # others))),
        stderr = [], exit_status = 0\<rparr> \<and>
     message_lines (response (observable_advice # others)) =
       ''iOS Best Practices:'' # bullet observable_advice # map bullet others"
proof -
  obtain others where rs: "collect_reminders (JStr content) = Inr (observable_advice # others)"
    using assms(5,6) by (simp add: collect_reminders_str)
  have "message_lines (response (observable_advice # others)) =
       ''iOS Best Practices:'' # bullet observable_advice # map bullet others"
    using message_lines_response [OF reminders_no_newline [OF rs]] by simp
  with rs main_swift [of loads s, OF assms(1-4) rs] show ?thesis
    by blast
qed

theorem observable_advice_first_witness:
  "\<exists>others.
     collect_reminders (JStr ''class Store: ObservableObject {}'') = Inr (observable_advice # others) \<and>
     main (\<lambda>s. Inr (scenario ''Store.swift'' ''class Store: ObservableObject {}'')) [] =
       \<lparr>stdout = py_print (json_dumps (response (observable_advice # others))),
        stderr = [], exit_status = 0\<rparr> \<and>
     message_lines (response (observable_advice # others)) =
       ''iOS Best Practices:'' # bullet observable_advice # map bullet others"
proof -
  have sw: "endswith ''Store.swift'' ''.swift''"
    by (simp add: endswith_def)
  have c: "get_content (JDict (scenario_tool_input ''Store.swift'' ''class Store: ObservableObject {}''))
      = Inr (JStr ''class Store: ObservableObject {}'')"
    by (simp add: scenario_get_content)
  have legacy: "contains ''class Store: ObservableObject {}'' ''ObservableObject''"
    by code_simp
  have modern: "\<not> contains ''class Store: ObservableObject {}'' ''@Observable''"
    by code_simp
  show ?thesis
    by (rule observable_advice_first
      [of "\<lambda>s. Inr (scenario ''Store.swift'' ''class Store: ObservableObject {}'')" "[]",
        OF refl scenario_edit_input sw c legacy modern])
qed

text \<open>
  C5. When the list of reminders of a request for a \<^verbatim>\<open>.swift\<close> file is not empty,
  the \<^verbatim>\<open>message\<close> is the header and one line \<^verbatim>\<open>- advice\<close> per reminder, joined
  by newlines; split at the newlines it gives back exactly those lines; and the
  reminders are the advices of the rules that hold, in the order of the four rules.
  The rules are independent: for each of the sixteen choices of which rules hold
  there is a content that realises it.
\<close>

theorem message_format:
  "(loads s = Inr input_data \<and> edit_input input_data tool_input file_path \<and>
    endswith file_path ''.swift'' \<and> get_content (JDict tool_input) = Inr (JStr content) \<and>
    collect_reminders (JStr content) = Inr reminders \<and> reminders \<noteq> [] \<longrightarrow>
      main loads s =
        \<lparr>stdout = py_print (json_dumps
           [(''decision'', ''approve''),
            (''message'', join [CHR 0x0A] (''iOS Best Practices:'' # map (\<lambda>r. ''- '' @ r) reminders))]),
         stderr = [], exit_status = 0\<rparr> \<and>
      split_lines (join [CHR 0x0A] (''iOS Best Practices:'' # map (\<lambda>r. ''- '' @ r) reminders)) =
        ''iOS Best Practices:'' # map (\<lambda>r. ''- '' @ r) reminders \<and>
      reminders =
        (if observable_rule (JStr content) = Inr True then [observable_advice] else []) @
        (if unwrap_rule (JStr content) = Inr True then [unwrap_advice] else []) @
        (if mainactor_rule (JStr content) = Inr True then [mainactor_advice] else []) @
        (if lazystack_rule (JStr content) = Inr True then [lazystack_advice] else [])) \<and>
   (\<forall>b1 b2 b3 b4. \<exists>c.
      observable_rule (JStr c) = Inr b1 \<and> unwrap_rule (JStr c) = Inr b2 \<and>
      mainactor_rule (JStr c) = Inr b3 \<and> lazystack_rule (JStr c) = Inr b4)"
proof (intro conjI impI allI)
  assume a: "loads s = Inr input_data \<and> edit_input input_data tool_input file_path \<and>
    endswith file_path ''.swift'' \<and> get_content (JDict tool_input) = Inr (JStr content) \<and>
    collect_reminders (JStr content) = Inr reminders \<and> reminders \<noteq> []"
  then have rs: "collect_reminders (JStr content) = Inr reminders" and ne: "reminders \<noteq> []"
    by simp_all
  have "main loads s =
     \<lparr>stdout = py_print (json_dumps (response reminders)), stderr = [], exit_status = 0\<rparr>"
    using a by (intro main_swift [of loads s input_data tool_input file_path content]) simp_all
  then show "main loads s =
        \<lparr>stdout = py_print (json_dumps
           [(''decision'', ''approve''),
            (''message'', join [CHR 0x0A] (''iOS Best Practices:'' # map (\<lambda>r. ''- '' @ r) reminders))]),
         stderr = [], exit_status = 0\<rparr>"
    unfolding response_message [OF ne] .
  have "\<forall>l\<in>set (''iOS Best Practices:'' # map bullet reminders). CHR 0x0A \<notin> set l"
    using reminders_no_newline [OF rs] by (auto simp: bullet_def)
  then have "split_lines (join [CHR 0x0A] (''iOS Best Practices:'' # map bullet reminders)) =
      ''iOS Best Practices:'' # map bullet reminders"
    by (intro split_lines_join) simp_all
  then show "split_lines (join [CHR 0x0A] (''iOS Best Practices:'' # map (\<lambda>r. ''- '' @ r) reminders)) =
        ''iOS Best Practices:'' # map (\<lambda>r. ''- '' @ r) reminders"
    unfolding bullet_lines .
  show "reminders =
        (if observable_rule (JStr content) = Inr True then [observable_advice] else []) @
        (if unwrap_rule (JStr content) = Inr True then [unwrap_advice] else []) @
        (if mainactor_rule (JStr content) = Inr True then [mainactor_advice] else []) @
        (if lazystack_rule (JStr content) = Inr True then [lazystack_advice] else [])"
    using rs unfolding collect_reminders_str
    by (simp add: observable_rule_str unwrap_rule_str mainactor_rule_str lazystack_rule_str)
next
  fix b1 b2 b3 b4
  show "\<exists>c. observable_rule (JStr c) = Inr b1 \<and> unwrap_rule (JStr c) = Inr b2 \<and>
      mainactor_rule (JStr c) = Inr b3 \<and> lazystack_rule (JStr c) = Inr b4"
    by (rule every_subset_fires)
qed

theorem message_format_witness:
  "main (\<lambda>s. Inr (scenario ''View.swift''
       ''ObservableObject force unwrap DispatchQueue.main async VStack { ForEach'')) [] =
     \<lparr>stdout = py_print (json_dumps
        [(''decision'', ''approve''),
         (''message'', join [CHR 0x0A] (''iOS Best Practices:'' # map (\<lambda>r. ''- '' @ r)
            [observable_advice, unwrap_advice, mainactor_advice, lazystack_advice]))]),
      stderr = [], exit_status = 0\<rparr> \<and>
   split_lines (join [CHR 0x0A] (''iOS Best Practices:'' # map (\<lambda>r. ''- '' @ r)
       [observable_advice, unwrap_advice, mainactor_advice, lazystack_advice])) =
     ''iOS Best Practices:'' # map (\<lambda>r. ''- '' @ r)
       [observable_advice, unwrap_advice, mainactor_advice, lazystack_advice]"
proof -
  let ?c = "''ObservableObject force unwrap DispatchQueue.main async VStack { ForEach''"
  let ?rs = "[observable_advice, unwrap_advice, mainactor_advice, lazystack_advice]"
  have sw: "endswith ''View.swift'' ''.swift''"
    by (simp add: endswith_def)
  have c: "get_content (JDict (scenario_tool_input ''View.swift'' ?c)) = Inr (JStr ?c)"
    by (simp add: scenario_get_content)
  have rs: "collect_reminders (JStr ?c) = Inr ?rs"
    by code_simp
  have ne: "?rs \<noteq> []"
    by simp
  show ?thesis
    using message_format
      [of "\<lambda>s. Inr (scenario ''View.swift'' ?c)" "[]" "scenario ''View.swift'' ?c"
          "scenario_tool_input ''View.swift'' ?c" "''View.swift''" ?c ?rs]
      scenario_edit_input [of "''View.swift''" ?c] sw c rs ne
    by blast
qed

text \<open>
  C6. When the \<^verbatim>\<open>content\<close> and \<^verbatim>\<open>new_string\<close> fields of \<^verbatim>\<open>tool_input\<close> are
  strings or absent, the content is the \<^verbatim>\<open>content\<close> field when it is present and
  not empty, otherwise the \<^verbatim>\<open>new_string\<close> field when it is present, otherwise the
  empty string; and for a \<^verbatim>\<open>.swift\<close> file it is this string that the rules are
  applied to.
\<close>

theorem content_precedence:
  assumes "map_of tool_input ''content'' = map_option JStr content_field"
    and "map_of tool_input ''new_string'' = map_option JStr new_string_field"
    and "chosen =
      (case content_field of
         Some c \<Rightarrow> if c \<noteq> [] then c
                   else (case new_string_field of Some n \<Rightarrow> n | None \<Rightarrow> [])
       | None \<Rightarrow> (case new_string_field of Some n \<Rightarrow> n | None \<Rightarrow> []))"
  shows "get_content (JDict tool_input) = Inr (JStr chosen) \<and>
     (loads s = Inr input_data \<and> edit_input input_data tool_input file_path \<and>
      endswith file_path ''.swift'' \<longrightarrow>
        (\<exists>reminders.
           collect_reminders (JStr chosen) = Inr reminders \<and>
           main loads s =
             \<lparr>stdout = py_print (json_dumps (response reminders)), stderr = [],
              exit_status = 0\<rparr>))"
proof -
  have g: "get_content (JDict tool_input) = Inr (JStr chosen)"
    using assms by (simp add: get_content_def split: option.splits)
  obtain reminders where rs: "collect_reminders (JStr chosen) = Inr reminders"
    by (simp add: collect_reminders_str)
  have "main loads s =
      \<lparr>stdout = py_print (json_dumps (response reminders)), stderr = [], exit_status = 0\<rparr>"
    if "loads s = Inr input_data" and "edit_input input_data tool_input file_path"
      and "endswith file_path ''.swift''"
    using main_swift [of loads s, OF that g rs] .
  with g rs show ?thesis by blast
qed

theorem content_precedence_witness:
  "get_content (JDict [(''file_path'', JStr ''View.swift''), (''content'', JStr []),
      (''new_string'', JStr ''let x = a!'')]) = Inr (JStr ''let x = a!'') \<and>
   (\<exists>reminders.
      collect_reminders (JStr ''let x = a!'') = Inr reminders \<and>
      main (\<lambda>s. Inr (JDict [(''tool_input'',
          JDict [(''file_path'', JStr ''View.swift''), (''content'', JStr []),
                 (''new_string'', JStr ''let x = a!'')])])) [] =
        \<lparr>stdout = py_print (json_dumps (response reminders)), stderr = [], exit_status = 0\<rparr>)"
proof -
  let ?ti = "[(''file_path'', JStr ''View.swift''), (''content'', JStr []),
              (''new_string'', JStr ''let x = a!'')]"
  let ?j = "JDict [(''tool_input'', JDict ?ti)]"
  have c: "map_of ?ti ''content'' = map_option JStr (Some [])"
    by simp
  have n: "map_of ?ti ''new_string'' = map_option JStr (Some ''let x = a!'')"
    by simp
  have a: "edit_input ?j ?ti ''View.swift''"
    by (simp add: edit_input_def)
  have sw: "endswith ''View.swift'' ''.swift''"
    by (simp add: endswith_def)
  show ?thesis
    using content_precedence [of ?ti "Some []" "Some ''let x = a!''" "''let x = a!''"
        "\<lambda>s. Inr ?j" "[]" ?j "''View.swift''", OF c n] a sw
    by simp
qed

text \<open>
  C7. For a request for a \<^verbatim>\<open>.swift\<close> file whose content is a string, the
  lazy-stack advice occurs once among the reminders (and its line once in the
  message) when the content contains \<^verbatim>\<open>VStack {\<close> and \<^verbatim>\<open>ForEach\<close> and does not
  contain \<^verbatim>\<open>LazyVStack\<close>, and not at all otherwise.
\<close>

theorem lazystack_advice_iff:
  assumes "loads s = Inr input_data"
    and "edit_input input_data tool_input file_path"
    and "endswith file_path ''.swift''"
    and "get_content (JDict tool_input) = Inr (JStr content)"
  shows "\<exists>reminders.
     collect_reminders (JStr content) = Inr reminders \<and>
     main loads s =
       \<lparr>stdout = py_print (json_dumps (response reminders)), stderr = [], exit_status = 0\<rparr> \<and>
     count_list reminders lazystack_advice =
       (if contains content ''VStack {'' \<and> contains content ''ForEach'' \<and>
           \<not> contains content ''LazyVStack''
        then 1 else 0) \<and>
     count_list (message_lines (response reminders)) (bullet lazystack_advice) =
       (if contains content ''VStack {'' \<and> contains content ''ForEach'' \<and>
           \<not> contains content ''LazyVStack''
        then 1 else 0)"
proof -
  obtain reminders where rs: "collect_reminders (JStr content) = Inr reminders"
    by (simp add: collect_reminders_str)
  have n: "count_list reminders lazystack_advice =
       (if contains content ''VStack {'' \<and> contains content ''ForEach'' \<and>
           \<not> contains content ''LazyVStack''
        then 1 else 0)"
    using rs advice_distinct unfolding collect_reminders_str by auto
  have "count_list (message_lines (response reminders)) (bullet lazystack_advice) =
      count_list reminders lazystack_advice"
    by (rule count_message_lines [OF reminders_no_newline [OF rs]])
  with n rs main_swift [of loads s, OF assms rs] show ?thesis
    by (intro exI [of _ reminders]) simp
qed

theorem lazystack_advice_iff_witness:
  "\<exists>reminders.
     collect_reminders (JStr ''VStack { ForEach(items) { Row($0) } }'') = Inr reminders \<and>
     main (\<lambda>s. Inr (scenario ''List.swift'' ''VStack { ForEach(items) { Row($0) } }'')) [] =
       \<lparr>stdout = py_print (json_dumps (response reminders)), stderr = [], exit_status = 0\<rparr> \<and>
     count_list reminders lazystack_advice = 1 \<and>
     count_list (message_lines (response reminders)) (bullet lazystack_advice) = 1"
proof -
  have sw: "endswith ''List.swift'' ''.swift''"
    by (simp add: endswith_def)
  have c: "get_content (JDict (scenario_tool_input ''List.swift'' ''VStack { ForEach(items) { Row($0) } }''))
      = Inr (JStr ''VStack { ForEach(items) { Row($0) } }'')"
    by (simp add: scenario_get_content)
  have fires: "contains ''VStack { ForEach(items) { Row($0) } }'' ''VStack {'' \<and>
      contains ''VStack { ForEach(items) { Row($0) } }'' ''ForEach'' \<and>
      \<not> contains ''VStack { ForEach(items) { Row($0) } }'' ''LazyVStack''"
    by code_simp
  show ?thesis
    using lazystack_advice_iff
      [of "\<lambda>s. Inr (scenario ''List.swift'' ''VStack { ForEach(items) { Row($0) } }'')" "[]",
        OF refl scenario_edit_input sw c]
      fires
    by (simp del: contains.simps)
qed

text \<open>
  C8. A content that contains \<^verbatim>\<open>@ObservableObject\<close> contains \<^verbatim>\<open>@Observable\<close>, so
  the first rule does not hold and the migration advice is not among the reminders.
\<close>

theorem observable_object_attribute_suppresses:
  assumes "contains content ''@ObservableObject''"
  shows "contains content ''@Observable'' \<and>
     observable_rule (JStr content) = Inr False \<and>
     (\<exists>reminders. collect_reminders (JStr content) = Inr reminders \<and>
        observable_advice \<notin> set reminders)"
proof -
  have "contains ''@ObservableObject'' ''@Observable''"
    by code_simp
  with assms have m: "contains content ''@Observable''"
    by (rule contains_trans)
  then have r: "observable_rule (JStr content) = Inr False"
    by (simp add: observable_rule_str)
  obtain reminders where rs: "collect_reminders (JStr content) = Inr reminders"
    by (simp add: collect_reminders_str)
  have "observable_advice \<notin> set reminders"
    using rs m advice_distinct unfolding collect_reminders_str by auto
  with m r rs show ?thesis by blast
qed

theorem observable_object_attribute_suppresses_witness:
  "contains ''@ObservableObject var store'' ''@Observable'' \<and>
   observable_rule (JStr ''@ObservableObject var store'') = Inr False \<and>
   (\<exists>reminders. collect_reminders (JStr ''@ObservableObject var store'') = Inr reminders \<and>
      observable_advice \<notin> set reminders)"
proof -
  have h: "contains ''@ObservableObject var store'' ''@ObservableObject''"
    by code_simp
  show ?thesis
    by (rule observable_object_attribute_suppresses [OF h])
qed

text \<open>
  C9. Whenever the body of the \<^verbatim>\<open>try\<close> block raises, standard output stays empty
  and the approval line goes to the error stream. That is the case when the parser
  raises, and when the content of a request for a \<^verbatim>\<open>.swift\<close> file is not a string.
\<close>

theorem error_path_stdout_empty:
  "(main_body loads s = Inl e \<longrightarrow>
      stdout (main loads s) = [] \<and> stderr (main loads s) = approve_line) \<and>
   (loads s = Inl e \<longrightarrow> stdout (main loads s) = []) \<and>
   (loads s = Inr input_data \<and> edit_input input_data tool_input file_path \<and>
    endswith file_path ''.swift'' \<and> get_content (JDict tool_input) = Inr v \<and>
    (case v of JStr c \<Rightarrow> False | _ \<Rightarrow> True) \<longrightarrow>
      stdout (main loads s) = [] \<and> stderr (main loads s) = approve_line)"
proof (intro conjI impI)
  assume "main_body loads s = Inl e"
  then show "stdout (main loads s) = []" and "stderr (main loads s) = approve_line"
    by (simp_all add: main_Inl approve_text)
next
  assume "loads s = Inl e"
  then have "main_body loads s = Inl e"
    by (simp add: main_body_def)
  then show "stdout (main loads s) = []"
    by (simp add: main_Inl)
next
  assume a: "loads s = Inr input_data \<and> edit_input input_data tool_input file_path \<and>
    endswith file_path ''.swift'' \<and> get_content (JDict tool_input) = Inr v \<and>
    (case v of JStr c \<Rightarrow> False | _ \<Rightarrow> True)"
  then have "\<And>c. v \<noteq> JStr c" by auto
  then obtain e' where "collect_reminders v = Inl e'"
    using collect_reminders_not_str by blast
  then have "main_body loads s = Inl e'"
    using a main_body_gate [of loads s input_data tool_input file_path] by simp
  then show "stdout (main loads s) = []" and "stderr (main loads s) = approve_line"
    by (simp_all add: main_Inl approve_text)
qed

theorem error_path_stdout_empty_witness:
  "stdout (main (\<lambda>s. Inr (JDict [(''tool_input'',
      JDict [(''file_path'', JStr ''View.swift''), (''content'', JList [JStr ''ObservableObject''])])])) [])
     = [] \<and>
   stderr (main (\<lambda>s. Inr (JDict [(''tool_input'',
      JDict [(''file_path'', JStr ''View.swift''), (''content'', JList [JStr ''ObservableObject''])])])) [])
     = approve_line"
proof -
  let ?ti = "[(''file_path'', JStr ''View.swift''), (''content'', JList [JStr ''ObservableObject''])]"
  let ?j = "JDict [(''tool_input'', JDict ?ti)]"
  have a: "edit_input ?j ?ti ''View.swift''"
    by (simp add: edit_input_def)
  have sw: "endswith ''View.swift'' ''.swift''"
    by (simp add: endswith_def)
  have c: "get_content (JDict ?ti) = Inr (JList [JStr ''ObservableObject''])"
    by (simp add: get_content_def)
  show ?thesis
    using error_path_stdout_empty
      [of "\<lambda>s. Inr ?j" "[]" AttributeError ?j ?ti "''View.swift''" "JList [JStr ''ObservableObject'']"]
      a sw c
    by simp
qed

text \<open>
  C10. Every run writes the serialisation of an object to standard output or to the
  error stream, and nothing else; whichever object the written text is the
  serialisation of, its \<^verbatim>\<open>decision\<close> is \<^verbatim>\<open>approve\<close> and its message, when there is
  one, has at most five lines, at most four of them after the header.
\<close>

theorem emitted_object_bounded:
  "(\<exists>obj. emits (main loads s) obj) \<and>
   (\<forall>obj. emits (main loads s) obj \<longrightarrow>
      map_of obj ''decision'' = Some ''approve'' \<and>
      length (message_lines obj) \<le> 5 \<and>
      length (tl (message_lines obj)) \<le> 4)"
proof -
  have "\<exists>obj. emits (main loads s) obj \<and>
      map_of obj ''decision'' = Some ''approve'' \<and>
      length (message_lines obj) \<le> 5 \<and>
      length (tl (message_lines obj)) \<le> 4"
  proof (cases "main_body loads s")
    case (Inl e)
    have "map_of approve ''decision'' = Some ''approve''" and "message_lines approve = []"
      by (simp_all add: approve_def message_lines_def)
    with main_Inl [OF Inl] show ?thesis
      by (intro exI [of _ approve]) (simp add: emits_def)
  next
    case (Inr out)
    from main_body_shape [OF Inr] obtain rs where out: "out = py_print (json_dumps (response rs))"
      and rs: "\<forall>r\<in>set rs. CHR 0x0A \<notin> set r" and len: "length rs \<le> 4"
    proof
      assume "out = py_print (json_dumps approve)"
      then have "out = py_print (json_dumps (response []))"
        by (simp add: response_def)
      then show ?thesis by (rule that) simp_all
    next
      assume "\<exists>c rs. collect_reminders (JStr c) = Inr rs \<and>
          out = py_print (json_dumps (response rs))"
      then obtain c rs where "collect_reminders (JStr c) = Inr rs"
        and "out = py_print (json_dumps (response rs))"
        by blast
      then show ?thesis
        using that reminders_no_newline reminders_length by blast
    qed
    have d: "map_of (response rs) ''decision'' = Some ''approve''"
      by (simp add: response_def approve_def)
    have "message_lines (response rs) =
        (if rs = [] then [] else ''iOS Best Practices:'' # map bullet rs)"
      by (rule message_lines_response [OF rs])
    with len have "length (message_lines (response rs)) \<le> 5"
      and "length (tl (message_lines (response rs))) \<le> 4"
      by simp_all
    with d main_Inr [OF Inr] out show ?thesis
      by (intro exI [of _ "response rs"]) (simp add: emits_def)
  qed
  then obtain obj where e: "emits (main loads s) obj"
    and p: "map_of obj ''decision'' = Some ''approve''" "length (message_lines obj) \<le> 5"
      "length (tl (message_lines obj)) \<le> 4"
    by blast
  have "obj' = obj" if "emits (main loads s) obj'" for obj'
    using that e by (rule emits_unique)
  with e p show ?thesis by blast
qed

theorem emitted_object_bounded_witness:
  "emits (main (\<lambda>s. Inr (scenario ''View.swift'' ''a!b!c!d!e!f!'')) []) (response [unwrap_advice]) \<and>
   map_of (response [unwrap_advice]) ''decision'' = Some ''approve'' \<and>
   length (message_lines (response [unwrap_advice])) \<le> 5 \<and>
   length (tl (message_lines (response [unwrap_advice]))) \<le> 4"
proof -
  have sw: "endswith ''View.swift'' ''.swift''"
    by (simp add: endswith_def)
  have c: "get_content (JDict (scenario_tool_input ''View.swift'' ''a!b!c!d!e!f!'')) =
      Inr (JStr ''a!b!c!d!e!f!'')"
    by (simp add: scenario_get_content)
  have rs: "collect_reminders (JStr ''a!b!c!d!e!f!'') = Inr [unwrap_advice]"
    by code_simp
  have e: "emits (main (\<lambda>s. Inr (scenario ''View.swift'' ''a!b!c!d!e!f!'')) []) (response [unwrap_advice])"
    using main_swift [of "\<lambda>s. Inr (scenario ''View.swift'' ''a!b!c!d!e!f!'')" "[]",
        OF refl scenario_edit_input sw c rs]
    by (simp add: emits_def)
  show ?thesis
    using emitted_object_bounded
      [of "\<lambda>s. Inr (scenario ''View.swift'' ''a!b!c!d!e!f!'')" "[]"] e
    by blast
qed

end
